theory Spec2Isabelle
  imports Main
begin

section \<open>The git\_stats virtual table of askgit (pkg/gitqlite/git\_stats.go)\<close>

text \<open>
  The file git\_stats.go adapts a git repository, read through the go-git library, to the
  virtual-table callbacks of go-sqlite3.  Both libraries are collaborators of the
  repository: what git\_stats.go does with their answers is translated function by
  function; their answers are data of the model, or, where a property depends on how
  go-git computes them, a model of the library.

  A Go method with a pointer receiver becomes a function from the receiver's state to
  the returned values and the new state.  A Go run-time panic (index out of range, slice
  bounds out of range, nil dereference) is the value \<open>Panic\<close>; a returned
  \<open>error\<close> is a value of the type \<open>error\<close>.
\<close>

subsection \<open>Errors, panics and results\<close>

datatype error =
    ErrReferenceNotFound      \<comment> \<open>\<open>plumbing.ErrReferenceNotFound\<close>\<close>
  | io_EOF                    \<comment> \<open>\<open>io.EOF\<close>\<close>
  | OtherError string         \<comment> \<open>any other error value of a collaborator\<close>

datatype panic =
    IndexOutOfRange
  | SliceBoundsOutOfRange
  | NilPointerDereference

datatype 'a result = Panic panic | Return 'a

subsection \<open>The table module: Create, Connect\<close>

text \<open>
  \<open>*sqlite3.SQLiteConn\<close>: the only method the module calls is \<open>DeclareVTab\<close>,
  which returns an error or nil.
\<close>

record SQLiteConn =
  DeclareVTab :: "string \<Rightarrow> error option"

text \<open>\<open>type gitStatsTable struct { repoPath string; repo *git.Repository }\<close>.
  The field \<open>repo\<close> is called \<open>tableRepo\<close> here, as the cursor has a field \<open>repo\<close>
  too; the type of repositories is a parameter of the table.\<close>

record 'r gitStatsTable =
  repoPath :: string
  tableRepo :: "'r option"

text \<open>
  The text handed to \<open>DeclareVTab\<close> (lines 21--27): the format string with the table
  name \<open>args[0]\<close> rendered by Go's verb \<open>%q\<close>.  The rendering \<open>q\<close> of \<open>%q\<close> belongs
  to Go's \<open>fmt\<close> package and is a parameter.
\<close>

definition nl :: string where
  "nl = [CHR 0x0A]"

definition tab :: string where
  "tab = [CHR 0x09]"

definition schemaText :: "(string \<Rightarrow> string) \<Rightarrow> string \<Rightarrow> string" where
  "schemaText q name =
     nl @ tab @ tab @ ''CREATE TABLE '' @ q name @ '' ('' @
     nl @ tab @ tab @ tab @ ''commit_id TEXT,'' @
     nl @ tab @ tab @ tab @ ''file TEXT,'' @
     nl @ tab @ tab @ tab @ ''additions INT(10),'' @
     nl @ tab @ tab @ tab @ ''deletions INT(10)'' @
     nl @ tab @ tab @ '')''"

text \<open>
  \<open>Create\<close> (lines 20--36).  \<open>args[0]\<close> is evaluated before \<open>DeclareVTab\<close> is called and
  panics on an empty list.  After a successful declaration \<open>args[3]\<close> panics when there
  are fewer than four arguments, and the slice \<open>args[3][1 : len(args[3])-1]\<close> panics when
  the argument is shorter than two bytes (for length 0 the upper bound is \<open>-1\<close>, for
  length 1 the lower bound 1 exceeds the upper bound 0).
\<close>

definition Create ::
  "(string \<Rightarrow> string) \<Rightarrow> SQLiteConn \<Rightarrow> string list \<Rightarrow> (error + 'r gitStatsTable) result"
where
  "Create q c args =
     (if length args \<le> 0 then Panic IndexOutOfRange
      else
        (case DeclareVTab c (schemaText q (args ! 0)) of
           Some err \<Rightarrow> Return (Inl err)
         | None \<Rightarrow>
             if length args \<le> 3 then Panic IndexOutOfRange
             else if length (args ! 3) < 2 then Panic SliceBoundsOutOfRange
             else
               Return (Inr \<lparr>repoPath = take (length (args ! 3) - 1 - 1) (drop 1 (args ! 3)),
                            tableRepo = None\<rparr>)))"

text \<open>\<open>Connect\<close> (lines 38--40) returns what \<open>Create\<close> returns.\<close>

definition Connect ::
  "(string \<Rightarrow> string) \<Rightarrow> SQLiteConn \<Rightarrow> string list \<Rightarrow> (error + 'r gitStatsTable) result"
where
  "Connect q c args = Create q c args"

subsection \<open>The table instance: BestIndex\<close>

text \<open>\<open>sqlite3.IndexResult\<close>: the code sets the field \<open>Used\<close> and leaves the others
  at their zero values.\<close>

record IndexResult =
  Used :: "bool list"

text \<open>\<open>BestIndex\<close> (lines 54--58): \<open>make([]bool, len(cst))\<close> is a slice of
  \<open>len(cst)\<close> times \<open>false\<close>; the returned error is nil.\<close>

definition BestIndex :: "'c list \<Rightarrow> 'o list \<Rightarrow> error + IndexResult" where
  "BestIndex cst ob = (let dummy = replicate (length cst) False in Inr \<lparr>Used = dummy\<rparr>)"

subsection \<open>What go-git answers\<close>

text \<open>
  The cursor reads the repository through these calls of go-git:
  \<open>repo.Head()\<close>, \<open>repo.Log(opts)\<close>, \<open>iter.Next()\<close>, \<open>commit.ID()\<close>,
  \<open>commit.NumParents()\<close>, \<open>commit.Stats()\<close>, \<open>commit.Files()\<close>, \<open>files.Next()\<close>
  and \<open>x.Lines()\<close>.  go-git is not part of the repository.  What it reads from the
  disk is data of the model (the fields of the records below; a read that can fail
  answers \<open>error + value\<close>); what it computes from that for a commit without parents
  (\<open>Stats()\<close>) and for the history (\<open>Log\<close>) is modelled after the library.  A hash
  is its hexadecimal text, as \<open>Hash.String()\<close> prints it.
\<close>

type_synonym Hash = string

text \<open>\<open>object.FileStat\<close>: \<open>Name string; Addition int; Deletion int\<close>.\<close>

record FileStat =
  Name :: string
  Addition :: int
  Deletion :: int

text \<open>\<open>object.File\<close>: its name (the field \<open>Name\<close>, called \<open>FName\<close> here), the
  answer of \<open>Lines()\<close>, and whether go-git takes its content for binary.\<close>

record File =
  FName :: string
  Lines :: "error + string list"
  Binary :: bool

text \<open>
  \<open>object.Commit\<close>: its hash (\<open>ID()\<close>), the hashes of its parents, the committer's
  time stamp, the statistics of the diff against its first parent (\<open>DiffStats\<close>, read
  for a commit that has a parent only) and the answer of \<open>Files()\<close>.  A file iterator
  is the list of the answers its \<open>Next()\<close> still has to give; once the list is used
  up \<open>Next()\<close> answers \<open>io.EOF\<close>.
\<close>

record Commit =
  Hash :: Hash
  ParentHashes :: "Hash list"
  When :: int
  DiffStats :: "error + FileStat list"
  Files :: "error + (error + File) list"

text \<open>\<open>commit.NumParents()\<close> is the number of parent hashes.\<close>

definition NumParents :: "Commit \<Rightarrow> nat" where
  "NumParents commit = length (ParentHashes commit)"

text \<open>
  Modelled from the spec: \<open>commit.Stats()\<close> belongs to go-git.  The specification
  (sections 3 and 6) has the statistics of a commit relative to its parent, and for a
  root commit, with no prior state to diff against, the full line count of each file
  as additions and no deletions.  go-git computes the latter as the diff of the
  commit's tree against the empty tree: one entry for each file of the commit, with the
  number of its lines, and none for a file whose patch is empty (a binary file, a
  file without content).  A failing read fails \<open>Stats()\<close>.
\<close>

fun emptyTreeStats :: "(error + File) list \<Rightarrow> FileStat list \<Rightarrow> error + FileStat list" where
  "emptyTreeStats [] stat = Inr stat"
| "emptyTreeStats (Inl err # files) stat = (if err = io_EOF then Inr stat else Inl err)"
| "emptyTreeStats (Inr x # files) stat =
     (case Lines x of
        Inl err \<Rightarrow> Inl err
      | Inr lines \<Rightarrow>
          if Binary x \<or> lines = [] then emptyTreeStats files stat
          else emptyTreeStats files
                 (stat @ [\<lparr>Name = FName x, Addition = int (length lines), Deletion = 0\<rparr>]))"

definition Stats :: "Commit \<Rightarrow> error + FileStat list" where
  "Stats commit =
     (if ParentHashes commit = [] then
        (case Files commit of
           Inl err \<Rightarrow> Inl err
         | Inr files \<Rightarrow> emptyTreeStats files [])
      else DiffStats commit)"

text \<open>A commit iterator, like a file iterator, is the list of the answers that
  \<open>Next()\<close> still has to give.\<close>

type_synonym CommitIter = "(error + Commit) list"

definition CommitIter_Next :: "CommitIter \<Rightarrow> (error + Commit) \<times> CommitIter" where
  "CommitIter_Next it = (case it of [] \<Rightarrow> (Inl io_EOF, []) | x # rest \<Rightarrow> (x, rest))"

text \<open>Of go-git's orders, the one the cursor asks for.\<close>

datatype LogOrder = LogOrderCommitterTime

text \<open>\<open>git.LogOptions\<close>: the code sets \<open>From\<close> and \<open>Order\<close>.\<close>

record LogOptions =
  From :: Hash
  Order :: LogOrder

text \<open>
  \<open>*git.Repository\<close>: \<open>Head()\<close> answers the hash of the reference it resolves
  (\<open>headRef.Hash()\<close>) or an error; \<open>Commits\<close> is the object store, the commits the
  repository holds.
\<close>

record Repository =
  Head :: "error + Hash"
  Commits :: "Commit list"

text \<open>\<open>repo.CommitObject(h)\<close>: the commit of the store with the hash \<open>h\<close>, or
  \<open>plumbing.ErrObjectNotFound\<close>.\<close>

definition CommitObject :: "Repository \<Rightarrow> Hash \<Rightarrow> error + Commit" where
  "CommitObject r h =
     (case find (\<lambda>c. Hash c = h) (Commits r) of
        None \<Rightarrow> Inl (OtherError ''object not found'')
      | Some c \<Rightarrow> Inr c)"

text \<open>
  Modelled from the spec: the walker belongs to go-git (the upstream collaborator of
  section 6, ``commit-history iteration ordered by commit time'').  It is modelled as
  go-git's iterator for \<open>LogOrderCommitterTime\<close> works.  The iterator keeps a heap of
  commits ordered by committer time, at first the commit it starts from, and the set of
  the hashes it has seen.  \<open>Next()\<close> pops commits until one is not seen (\<open>io.EOF\<close>
  when the heap is empty), marks it seen, reads each parent that is not seen from the
  store and pushes it (a failing read is the answer of this \<open>Next()\<close>, the parents
  pushed before it stay), and answers the commit.

  The heap is the list of its commits.  \<open>Pop\<close> takes out a commit of the latest
  committer time; among several of that time it is the one pushed first.
\<close>

fun popMax :: "Commit list \<Rightarrow> (Commit \<times> Commit list) option" where
  "popMax [] = None"
| "popMax (c # heap) =
     (case popMax heap of
        None \<Rightarrow> Some (c, [])
      | Some (m, rest) \<Rightarrow> if When c < When m then Some (m, c # rest) else Some (c, heap))"

fun pushParents ::
  "Repository \<Rightarrow> Hash list \<Rightarrow> Hash list \<Rightarrow> Commit list \<Rightarrow> error option \<times> Commit list" where
  "pushParents r [] seen heap = (None, heap)"
| "pushParents r (h # hs) seen heap =
     (if h \<in> set seen then pushParents r hs seen heap
      else
        (case CommitObject r h of
           Inl err \<Rightarrow> (Some err, heap)
         | Inr pc \<Rightarrow> pushParents r hs seen (heap @ [pc])))"

function ctimeAnswers :: "Repository \<Rightarrow> Commit list \<Rightarrow> Hash list \<Rightarrow> CommitIter" where
  "ctimeAnswers r heap seen =
     (case popMax heap of
        None \<Rightarrow> []
      | Some (c, heap') \<Rightarrow>
          if Hash c \<in> set seen then ctimeAnswers r heap' seen
          else
            (case pushParents r (ParentHashes c) (Hash c # seen) heap' of
               (Some err, heap'') \<Rightarrow> Inl err # ctimeAnswers r heap'' (Hash c # seen)
             | (None, heap'') \<Rightarrow> Inr c # ctimeAnswers r heap'' (Hash c # seen)))"
  by pat_completeness auto

text \<open>\<open>repo.Log(opts)\<close> reads the commit of \<open>opts.From\<close> and answers the walker that
  starts from it.\<close>

definition Log :: "Repository \<Rightarrow> LogOptions \<Rightarrow> error + CommitIter" where
  "Log r opts =
     (case CommitObject r (From opts) of
        Inl err \<Rightarrow> Inl err
      | Inr commit \<Rightarrow> Inr (ctimeAnswers r [commit] []))"

subsection \<open>The cursor\<close>

text \<open>
  \<open>type statsCursor struct\<close> (lines 66--72).  \<open>current\<close> is a pointer (nil is
  \<open>None\<close>), \<open>commitIter\<close> an interface value (nil is \<open>None\<close>).  \<open>statIndex\<close> is a Go
  \<open>int\<close> that the code only sets to 0 and increments while it stays below
  \<open>len(stats)\<close>: it is never negative and never overflows.
\<close>

record statsCursor =
  repo :: Repository
  current :: "Commit option"
  stats :: "FileStat list"
  statIndex :: nat
  commitIter :: "CommitIter option"

text \<open>The cursor that \<open>Open\<close> builds: \<open>&statsCursor{repo: v.repo}\<close>, every other
  field at its zero value.\<close>

definition newCursor :: "Repository \<Rightarrow> statsCursor" where
  "newCursor r = \<lparr>repo = r, current = None, stats = [], statIndex = 0, commitIter = None\<rparr>"

text \<open>\<open>Open\<close> (lines 44--52); \<open>git.PlainOpen\<close> is the parameter \<open>plainOpen\<close>.\<close>

definition Open ::
  "(string \<Rightarrow> error + Repository) \<Rightarrow> Repository gitStatsTable \<Rightarrow>
     error + (Repository gitStatsTable \<times> statsCursor)"
where
  "Open plainOpen v =
     (case plainOpen (repoPath v) of
        Inl err \<Rightarrow> Inl err
      | Inr r \<Rightarrow> Inr (v\<lparr>tableRepo := Some r\<rparr>, newCursor r))"

text \<open>What \<open>Column\<close> hands to the engine: \<open>c.ResultText\<close> or \<open>c.ResultInt\<close>.\<close>

datatype sqlvalue = ResultText string | ResultInt int

text \<open>
  \<open>Column\<close> (lines 74--95).  Column 0 dereferences \<open>vc.current\<close>; columns 1 to 3
  index \<open>vc.stats\<close> at \<open>vc.statIndex\<close>, which panics out of range; any other column
  sets no result.  The returned error is always nil.
\<close>

definition Column :: "statsCursor \<Rightarrow> int \<Rightarrow> sqlvalue option result" where
  "Column vc col =
     (if col = 0 then
        (case current vc of
           None \<Rightarrow> Panic NilPointerDereference
         | Some commit \<Rightarrow> Return (Some (ResultText (Hash commit))))
      else if col = 1 then
        (if statIndex vc < length (stats vc)
         then Return (Some (ResultText (Name (stats vc ! statIndex vc))))
         else Panic IndexOutOfRange)
      else if col = 2 then
        (if statIndex vc < length (stats vc)
         then Return (Some (ResultInt (Addition (stats vc ! statIndex vc))))
         else Panic IndexOutOfRange)
      else if col = 3 then
        (if statIndex vc < length (stats vc)
         then Return (Some (ResultInt (Deletion (stats vc ! statIndex vc))))
         else Panic IndexOutOfRange)
      else Return None)"

text \<open>
  \<open>Filter\<close> (lines 97--128) returns an error or nil, and the cursor as it leaves it.
  The iterator is stored in the cursor before its first \<open>Next()\<close>, so a failure after
  line 113 leaves the new iterator behind.
\<close>

definition Filter :: "statsCursor \<Rightarrow> error option \<times> statsCursor" where
  "Filter vc =
     (case Head (repo vc) of
        Inl err \<Rightarrow>
          if err = ErrReferenceNotFound then (None, vc) else (Some err, vc)
      | Inr headHash \<Rightarrow>
          (case Log (repo vc) \<lparr>From = headHash, Order = LogOrderCommitterTime\<rparr> of
             Inl err \<Rightarrow> (Some err, vc)
           | Inr iter \<Rightarrow>
               (case CommitIter_Next iter of
                  (Inl err, iter') \<Rightarrow> (Some err, vc\<lparr>commitIter := Some iter'\<rparr>)
                | (Inr commit, iter') \<Rightarrow>
                    (case Stats commit of
                       Inl err \<Rightarrow> (Some err, vc\<lparr>commitIter := Some iter'\<rparr>)
                     | Inr st \<Rightarrow>
                         (None, vc\<lparr>commitIter := Some iter', stats := st,
                                    current := Some commit, statIndex := 0\<rparr>)))))"

text \<open>
  The loop of lines 154--160 over the files of a root commit, with the statistics
  collected so far.  It ends when \<open>files.Next()\<close> answers \<open>io.EOF\<close>.  On any other
  error of \<open>files.Next()\<close> the file \<open>x\<close> is nil and \<open>x.Lines()\<close> dereferences it.
  An error of \<open>x.Lines()\<close> is returned.
\<close>

fun filesLoop :: "(error + File) list \<Rightarrow> FileStat list \<Rightarrow> (error + FileStat list) result" where
  "filesLoop [] stat = Return (Inr stat)"
| "filesLoop (Inl err # files) stat =
     (if err = io_EOF then Return (Inr stat) else Panic NilPointerDereference)"
| "filesLoop (Inr x # files) stat =
     (case Lines x of
        Inl err \<Rightarrow> Return (Inl err)
      | Inr lines \<Rightarrow>
          filesLoop files
            (stat @ [\<lparr>Name = FName x, Addition = int (length lines), Deletion = 0\<rparr>]))"

text \<open>
  \<open>Next\<close> (lines 130--172).  Calling \<open>Next()\<close> on a nil \<open>commitIter\<close> panics.  When
  the walker answers \<open>io.EOF\<close> the cursor's commit becomes nil.
\<close>

definition Next :: "statsCursor \<Rightarrow> (error option \<times> statsCursor) result" where
  "Next vc =
     (if length (stats vc) > statIndex vc + 1
      then Return (None, vc\<lparr>statIndex := statIndex vc + 1\<rparr>)
      else
        (case commitIter vc of
           None \<Rightarrow> Panic NilPointerDereference
         | Some iter \<Rightarrow>
             (case CommitIter_Next iter of
                (Inl err, iter') \<Rightarrow>
                  if err = io_EOF
                  then Return (None, vc\<lparr>statIndex := 0, commitIter := Some iter', current := None\<rparr>)
                  else Return (Some err, vc\<lparr>statIndex := 0, commitIter := Some iter'\<rparr>)
              | (Inr commit, iter') \<Rightarrow>
                  if NumParents commit = 0 then
                    (case Files commit of
                       Inl err \<Rightarrow> Return (Some err, vc\<lparr>statIndex := 0, commitIter := Some iter'\<rparr>)
                     | Inr files \<Rightarrow>
                         (case filesLoop files [] of
                            Panic p \<Rightarrow> Panic p
                          | Return (Inl err) \<Rightarrow>
                              Return (Some err, vc\<lparr>statIndex := 0, commitIter := Some iter'\<rparr>)
                          | Return (Inr stat) \<Rightarrow>
                              Return (None, vc\<lparr>statIndex := 0, commitIter := Some iter',
                                               stats := stat, current := Some commit\<rparr>)))
                  else
                    (case Stats commit of
                       Inl err \<Rightarrow> Return (Some err, vc\<lparr>statIndex := 0, commitIter := Some iter'\<rparr>)
                     | Inr st \<Rightarrow>
                         Return (None, vc\<lparr>statIndex := 0, commitIter := Some iter',
                                          stats := st, current := Some commit\<rparr>)))))"

text \<open>\<open>EOF\<close> (lines 174--176).\<close>

definition EOF :: "statsCursor \<Rightarrow> bool" where
  "EOF vc = (current vc = None)"

subsection \<open>A scan, as the engine drives it\<close>

text \<open>
  The engine calls \<open>Filter\<close> once, then while \<open>EOF\<close> is false reads the columns the
  query asks for with \<open>Column\<close> and calls \<open>Next\<close>.  A scan ends when \<open>EOF\<close> is true
  (\<open>Done\<close>), when a callback returns an error (\<open>Failed\<close>) or when one panics
  (\<open>Panicked\<close>); the rows read before that have been handed to the engine.
\<close>

datatype outcome = Done | Failed error | Panicked panic

text \<open>The columns of one row, read in the order the engine asks for them.\<close>

fun readColumns :: "statsCursor \<Rightarrow> int list \<Rightarrow> sqlvalue option list result" where
  "readColumns vc [] = Return []"
| "readColumns vc (col # cols) =
     (case Column vc col of
        Panic p \<Rightarrow> Panic p
      | Return v \<Rightarrow>
          (case readColumns vc cols of
             Panic p \<Rightarrow> Panic p
           | Return vs \<Rightarrow> Return (v # vs)))"

text \<open>
  The loop after \<open>Filter\<close>; \<open>rd\<close> is what the engine reads at each position.  It
  ends: a \<open>Next\<close> that returns no error on a cursor not at its end moves to the next
  file of the commit, or uses up an answer of the walker, or reaches the end.
\<close>

function scanLoop :: "(statsCursor \<Rightarrow> 'a result) \<Rightarrow> statsCursor \<Rightarrow> 'a list \<times> outcome" where
  "scanLoop rd vc =
     (if EOF vc then ([], Done)
      else
        (case rd vc of
           Panic p \<Rightarrow> ([], Panicked p)
         | Return row \<Rightarrow>
             (case Next vc of
                Panic p \<Rightarrow> ([row], Panicked p)
              | Return (Some err, vc') \<Rightarrow> ([row], Failed err)
              | Return (None, vc') \<Rightarrow>
                  (case scanLoop rd vc' of (rows, out) \<Rightarrow> (row # rows, out)))))"
  by pat_completeness auto
termination
proof (relation "inv_image (measures [\<lambda>vc. if EOF vc then 0 else 1,
            \<lambda>vc. (case commitIter vc of None \<Rightarrow> 0 | Some it \<Rightarrow> length it),
            \<lambda>vc. length (stats vc) - statIndex vc]) snd", goal_cases)
  case 1
  then show ?case by simp
next
  case (2 rd vc row x2 x y)
  then have "\<not> EOF vc" and "Next vc = Return (None, y)"
    by simp_all
  then have "(y, vc) \<in> measures [\<lambda>vc. if EOF vc then 0 else 1,
            \<lambda>vc. (case commitIter vc of None \<Rightarrow> 0 | Some it \<Rightarrow> length it),
            \<lambda>vc. length (stats vc) - statIndex vc]"
    by (auto simp: Next_def EOF_def CommitIter_Next_def
          split: if_splits option.splits list.splits sum.splits result.splits prod.splits)
  then show ?case by simp
qed

declare scanLoop.simps [simp del]

definition scanWith :: "(statsCursor \<Rightarrow> 'a result) \<Rightarrow> statsCursor \<Rightarrow> 'a list \<times> outcome" where
  "scanWith rd vc =
     (case Filter vc of
        (Some err, vc') \<Rightarrow> ([], Failed err)
      | (None, vc') \<Rightarrow> scanLoop rd vc')"

text \<open>The scan of a query that reads the columns \<open>cols\<close> of every row.\<close>

definition scan :: "int list \<Rightarrow> statsCursor \<Rightarrow> sqlvalue option list list \<times> outcome" where
  "scan cols vc = scanWith (\<lambda>vc. readColumns vc cols) vc"

subsection \<open>Notions the properties are stated with\<close>

text \<open>
  The statistics that \<open>Next\<close> computes for a commit the walker hands it (lines
  148--168): the files of a root commit with their line counts, the answer of
  \<open>Stats()\<close> for any other commit.
\<close>

definition nextStats :: "Commit \<Rightarrow> (error + FileStat list) result" where
  "nextStats commit =
     (if NumParents commit = 0 then
        (case Files commit of
           Inl err \<Rightarrow> Return (Inl err)
         | Inr files \<Rightarrow> filesLoop files [])
      else Return (Stats commit))"

text \<open>
  The cursors a repository's table can hold during a scan: the one \<open>Open\<close> builds,
  and whatever \<open>Filter\<close> and \<open>Next\<close> leave behind when they return.
\<close>

inductive driven :: "Repository \<Rightarrow> statsCursor \<Rightarrow> bool" for r :: Repository where
  opened: "driven r (newCursor r)"
| filtered: "driven r vc \<Longrightarrow> Filter vc = (e, vc') \<Longrightarrow> driven r vc'"
| advanced: "driven r vc \<Longrightarrow> Next vc = Return (e, vc') \<Longrightarrow> driven r vc'"






text \<open>The entry \<open>s\<close> is the row of one of the \<open>files\<close>: it has no deletion, and as
  additions the number of lines of a file of that name.\<close>

definition fileRow :: "(error + File) list \<Rightarrow> FileStat \<Rightarrow> bool" where
  "fileRow files s \<longleftrightarrow>
     Deletion s = 0 \<and>
     (\<exists>x lines. Inr x \<in> set files \<and> FName x = Name s \<and> Lines x = Inr lines \<and>
        Addition s = int (length lines))"

text \<open>The statistics \<open>st\<close> are rows of files of the commit \<open>c\<close>.\<close>

definition rootRows :: "Commit \<Rightarrow> FileStat list \<Rightarrow> bool" where
  "rootRows c st \<longleftrightarrow> (\<exists>files. Files c = Inr files \<and> (\<forall>s\<in>set st. fileRow files s))"




subsection \<open>Example connections and repositories\<close>

text \<open>What \<open>%q\<close> prints for a string of printable ASCII characters with no quote and
  no backslash in it: the string between two double quotes.\<close>

definition quotePlain :: "string \<Rightarrow> string" where
  "quotePlain s = [CHR 0x22] @ s @ [CHR 0x22]"

definition accepting :: SQLiteConn where
  "accepting = \<lparr>DeclareVTab = (\<lambda>sql. None)\<rparr>"

definition rejecting :: SQLiteConn where
  "rejecting = \<lparr>DeclareVTab = (\<lambda>sql. Some (OtherError ''vtable constructor failed''))\<rparr>"

text \<open>A repository with no commit: \<open>Head()\<close> finds no reference.\<close>

definition unbornRepo :: Repository where
  "unbornRepo = \<lparr>Head = Inl ErrReferenceNotFound, Commits = []\<rparr>"

text \<open>A repository that holds the commits \<open>cs\<close>, with the first of them as tip.\<close>

definition historyRepo :: "Commit list \<Rightarrow> Repository" where
  "historyRepo cs =
     \<lparr>Head = (case cs of [] \<Rightarrow> Inl ErrReferenceNotFound | c # _ \<Rightarrow> Inr (Hash c)),
      Commits = cs\<rparr>"

text \<open>
  Scenario A of the specification: one commit, which adds \<open>a.txt\<close> (3 lines) and
  \<open>b.txt\<close> (2 lines).
\<close>

definition commitA :: Commit where
  "commitA =
     \<lparr>Hash = ''a1'', ParentHashes = [], When = 100, DiffStats = Inr [],
      Files = Inr [Inr \<lparr>FName = ''a.txt'', Lines = Inr [''x'', ''y'', ''z''], Binary = False\<rparr>,
                   Inr \<lparr>FName = ''b.txt'', Lines = Inr [''u'', ''v''], Binary = False\<rparr>]\<rparr>"

text \<open>
  Scenario B: a root commit that adds \<open>a.txt\<close> (5 lines), and a second commit that
  changes it by 3 added lines and 1 removed line.
\<close>

definition commitB1 :: Commit where
  "commitB1 =
     \<lparr>Hash = ''b1'', ParentHashes = [], When = 100, DiffStats = Inr [],
      Files = Inr [Inr \<lparr>FName = ''a.txt'', Lines = Inr [''1'', ''2'', ''3'', ''4'', ''5''],
                         Binary = False\<rparr>]\<rparr>"

definition commitB2 :: Commit where
  "commitB2 =
     \<lparr>Hash = ''b2'', ParentHashes = [''b1''], When = 200,
      DiffStats = Inr [\<lparr>Name = ''a.txt'', Addition = 3, Deletion = 1\<rparr>],
      Files = Inr [Inr \<lparr>FName = ''a.txt'',
                         Lines = Inr [''1'', ''2'', ''6'', ''7'', ''8'', ''4'', ''5''],
                         Binary = False\<rparr>]\<rparr>"

text \<open>A commit on top of Scenario B that changes no file (as \<open>git commit
  --allow-empty\<close> records): its statistics are empty.\<close>

definition commitB3 :: Commit where
  "commitB3 =
     \<lparr>Hash = ''b3'', ParentHashes = [''b2''], When = 300,
      DiffStats = Inr [],
      Files = Inr [Inr \<lparr>FName = ''a.txt'',
                         Lines = Inr [''1'', ''2'', ''6'', ''7'', ''8'', ''4'', ''5''],
                         Binary = False\<rparr>]\<rparr>"

text \<open>A commit on top of that one, which adds a line to \<open>a.txt\<close>.\<close>

definition commitB4 :: Commit where
  "commitB4 =
     \<lparr>Hash = ''b4'', ParentHashes = [''b3''], When = 400,
      DiffStats = Inr [\<lparr>Name = ''a.txt'', Addition = 1, Deletion = 0\<rparr>],
      Files = Inr [Inr \<lparr>FName = ''a.txt'',
                         Lines = Inr [''1'', ''2'', ''6'', ''7'', ''8'', ''4'', ''5'', ''9''],
                         Binary = False\<rparr>]\<rparr>"




text \<open>A cursor positioned on the commit \<open>c\<close>, at the file \<open>i\<close> of its statistics
  \<open>st\<close>, with the answers \<open>iter\<close> of the walker still to come.\<close>

definition positionedAt ::
  "Repository \<Rightarrow> Commit \<Rightarrow> FileStat list \<Rightarrow> nat \<Rightarrow> CommitIter \<Rightarrow> statsCursor" where
  "positionedAt r c st i iter =
     \<lparr>repo = r, current = Some c, stats = st, statIndex = i, commitIter = Some iter\<rparr>"

section \<open>Properties\<close>

subsection \<open>The walker ends\<close>

text \<open>What \<open>Pop\<close> takes out, what the parents' loop pushes, and what the store
  answers; the walker ends because of them.\<close>

lemma popMax_None: "popMax heap = None \<longleftrightarrow> heap = []"
  by (cases heap) (auto split: option.splits)

lemma popMax_Some:
  assumes "popMax heap = Some (m, rest)"
  shows "set heap = insert m (set rest) \<and> length heap = Suc (length rest) \<and>
         (\<forall>x\<in>set heap. When x \<le> When m)"
  using assms
proof (induction heap arbitrary: m rest)
  case Nil
  then show ?case by simp
next
  case (Cons a heap)
  show ?case
  proof (cases "popMax heap")
    case None
    then show ?thesis using Cons.prems by (simp add: popMax_None)
  next
    case (Some p)
    obtain m' rest' where p: "p = (m', rest')" by (cases p)
    note IH = Cons.IH [OF Some [unfolded p]]
    show ?thesis
    proof (cases "When a < When m'")
      case True
      then have "m = m'" "rest = a # rest'"
        using Cons.prems Some p by simp_all
      then show ?thesis using IH True by auto
    next
      case False
      then have "m = a" "rest = heap"
        using Cons.prems Some p by simp_all
      then show ?thesis using IH False by fastforce
    qed
  qed
qed

lemma CommitObject_Inr:
  assumes "CommitObject r h = Inr c"
  shows "c \<in> set (Commits r)" and "Hash c = h" and "CommitObject r (Hash c) = Inr c"
proof -
  from assms have f: "find (\<lambda>c. Hash c = h) (Commits r) = Some c"
    by (simp add: CommitObject_def split: option.splits)
  then show "c \<in> set (Commits r)" and h: "Hash c = h"
    by (auto simp: find_Some_iff)
  show "CommitObject r (Hash c) = Inr c"
    using assms h by simp
qed

lemma pushParents_heap:
  assumes "pushParents r hs seen heap = (e, heap'')"
  shows "\<exists>new. heap'' = heap @ new \<and>
           (\<forall>pc\<in>set new. Hash pc \<in> set hs \<and> Hash pc \<notin> set seen \<and>
              CommitObject r (Hash pc) = Inr pc) \<and>
           (e = None \<longrightarrow> (\<forall>h\<in>set hs. h \<in> set seen \<or> h \<in> Hash ` set new))"
  using assms
proof (induction r hs seen heap arbitrary: e heap'' rule: pushParents.induct)
  case (1 r seen heap)
  then show ?case by simp
next
  case (2 r h hs seen heap)
  show ?case
  proof (cases "h \<in> set seen")
    case True
    with 2 show ?thesis by auto
  next
    case False
    show ?thesis
    proof (cases "CommitObject r h")
      case (Inl err)
      with False "2.prems" show ?thesis by auto
    next
      case (Inr pc)
      with False "2.prems" have "pushParents r hs seen (heap @ [pc]) = (e, heap'')"
        by simp
      from "2.IH"(2) [OF False Inr this] obtain new where new:
        "heap'' = (heap @ [pc]) @ new"
        "\<forall>pc\<in>set new. Hash pc \<in> set hs \<and> Hash pc \<notin> set seen \<and>
              CommitObject r (Hash pc) = Inr pc"
        "e = None \<longrightarrow> (\<forall>h\<in>set hs. h \<in> set seen \<or> h \<in> Hash ` set new)"
        by blast
      have pc: "Hash pc = h" "CommitObject r (Hash pc) = Inr pc"
        using CommitObject_Inr [OF Inr] by simp_all
      show ?thesis
        using new pc False by (intro exI [of _ "pc # new"]) auto
    qed
  qed
qed

text \<open>Each step of the walker takes a commit off the heap; when it pushes parents it
  has one more hash seen, among those of the store and the heap.\<close>

termination ctimeAnswers
proof (relation "(\<lambda>(r, heap, seen). card ((Hash ` set (Commits r) \<union> Hash ` set heap) - set seen))
                   <*mlex*> measure (\<lambda>(r, heap, seen). length heap)", goal_cases)
  case 1
  show ?case by (simp add: wf_mlex)
next
  case (2 r heap seen x2 c heap')
  then have s: "set heap = insert c (set heap')" and l: "length heap = Suc (length heap')"
    using popMax_Some [of heap c heap'] by simp_all
  have "card ((Hash ` set (Commits r) \<union> Hash ` set heap') - set seen)
      \<le> card ((Hash ` set (Commits r) \<union> Hash ` set heap) - set seen)"
    using s by (intro card_mono) auto
  then show ?case
    using l by (auto intro!: mlex_leq)
next
  case (3 r heap seen x2 c heap' e heap'')
  then have s: "set heap = insert c (set heap')"
    using popMax_Some [of heap c heap'] by simp
  from 3 pushParents_heap [of r "ParentHashes c" "Hash c # seen" heap' e heap'']
  obtain new where "heap'' = heap' @ new" "\<forall>pc\<in>set new. CommitObject r (Hash pc) = Inr pc"
    by auto
  then have "Hash ` set heap'' \<subseteq> Hash ` set (Commits r) \<union> Hash ` set heap"
    using s by (auto dest: CommitObject_Inr(1))
  then have "(Hash ` set (Commits r) \<union> Hash ` set heap'') - set (Hash c # seen)
      \<subset> (Hash ` set (Commits r) \<union> Hash ` set heap) - set seen"
    using s 3(3) by auto
  then show ?case
    by (auto intro!: mlex_less psubset_card_mono)
next
  case (4 r heap seen x2 c heap' e heap'' err)
  then have s: "set heap = insert c (set heap')"
    using popMax_Some [of heap c heap'] by simp
  from 4 pushParents_heap [of r "ParentHashes c" "Hash c # seen" heap' e heap'']
  obtain new where "heap'' = heap' @ new" "\<forall>pc\<in>set new. CommitObject r (Hash pc) = Inr pc"
    by auto
  then have "Hash ` set heap'' \<subseteq> Hash ` set (Commits r) \<union> Hash ` set heap"
    using s by (auto dest: CommitObject_Inr(1))
  then have "(Hash ` set (Commits r) \<union> Hash ` set heap'') - set (Hash c # seen)
      \<subset> (Hash ` set (Commits r) \<union> Hash ` set heap) - set seen"
    using s 4(3) by auto
  then show ?case
    by (auto intro!: mlex_less psubset_card_mono)
qed

declare ctimeAnswers.simps [simp del]

subsection \<open>The steps of Next\<close>

lemma Next_same_commit:
  assumes "statIndex vc + 1 < length (stats vc)"
  shows "Next vc = Return (None, vc\<lparr>statIndex := statIndex vc + 1\<rparr>)"
  using assms by (simp add: Next_def)

lemma Next_new_commit:
  assumes "\<not> statIndex vc + 1 < length (stats vc)"
    and "commitIter vc = Some (Inr commit # iter')"
  shows "Next vc =
     (case nextStats commit of
        Panic p \<Rightarrow> Panic p
      | Return (Inl err) \<Rightarrow> Return (Some err, vc\<lparr>statIndex := 0, commitIter := Some iter'\<rparr>)
      | Return (Inr st) \<Rightarrow>
          Return (None, vc\<lparr>statIndex := 0, commitIter := Some iter', stats := st,
                           current := Some commit\<rparr>))"
  using assms
  by (simp add: Next_def nextStats_def CommitIter_Next_def split: sum.splits result.splits)

lemma Next_walker_exhausted:
  assumes "\<not> statIndex vc + 1 < length (stats vc)"
    and "commitIter vc = Some iter" and "fst (CommitIter_Next iter) = Inl io_EOF"
  shows "Next vc = Return (None, vc\<lparr>statIndex := 0,
           commitIter := Some (snd (CommitIter_Next iter)), current := None\<rparr>)"
  using assms
  by (cases "CommitIter_Next iter") (simp add: Next_def)

lemma scanLoop_EOF: "EOF vc \<Longrightarrow> scanLoop rd vc = ([], Done)"
  by (simp add: scanLoop.simps)

lemma nextStats_commitB1:
  "nextStats commitB1 = Return (Inr [\<lparr>Name = ''a.txt'', Addition = 5, Deletion = 0\<rparr>])"
  by (simp add: nextStats_def commitB1_def NumParents_def)

lemma nextStats_commitB3: "nextStats commitB3 = Return (Inr [])"
  by (simp add: nextStats_def Stats_def commitB3_def NumParents_def)

text \<open>
  C4.  On a positioned cursor (a current commit, a walker), \<open>Next\<close>
  \<^item> only increments the file index when another file of the current commit remains;
  \<^item> otherwise, when the walker answers a commit whose statistics it can compute, stores
    the rest of the walker, these statistics, that commit, and the file index 0;
  \<^item> otherwise, when the walker answers \<open>io.EOF\<close>, sets the commit to nil, after which
    \<open>EOF\<close> is true.
\<close>

theorem Next_steps:
  assumes "current vc = Some c" and "commitIter vc = Some iter"
  shows "(statIndex vc + 1 < length (stats vc) \<longrightarrow>
            Next vc = Return (None, vc\<lparr>statIndex := statIndex vc + 1\<rparr>)) \<and>
         (\<forall>commit iter' st.
            \<not> statIndex vc + 1 < length (stats vc) \<and> iter = Inr commit # iter' \<and>
            nextStats commit = Return (Inr st) \<longrightarrow>
            Next vc = Return (None, vc\<lparr>statIndex := 0, commitIter := Some iter', stats := st,
                                       current := Some commit\<rparr>)) \<and>
         (\<forall>vc'. \<not> statIndex vc + 1 < length (stats vc) \<and>
            fst (CommitIter_Next iter) = Inl io_EOF \<and>
            vc' = vc\<lparr>statIndex := 0, commitIter := Some (snd (CommitIter_Next iter)),
                      current := None\<rparr> \<longrightarrow>
            Next vc = Return (None, vc') \<and> EOF vc')"
  using assms
  by (auto simp: Next_same_commit Next_new_commit Next_walker_exhausted EOF_def)

theorem Next_steps_witness:
  "Next (positionedAt (historyRepo [commitB2, commitB1]) commitB2
           [\<lparr>Name = ''a.txt'', Addition = 3, Deletion = 1\<rparr>,
            \<lparr>Name = ''b.txt'', Addition = 1, Deletion = 0\<rparr>] 0 [Inr commitB1]) =
     Return (None, positionedAt (historyRepo [commitB2, commitB1]) commitB2
           [\<lparr>Name = ''a.txt'', Addition = 3, Deletion = 1\<rparr>,
            \<lparr>Name = ''b.txt'', Addition = 1, Deletion = 0\<rparr>] 1 [Inr commitB1]) \<and>
   Next (positionedAt (historyRepo [commitB2, commitB1]) commitB2
           [\<lparr>Name = ''a.txt'', Addition = 3, Deletion = 1\<rparr>] 0 [Inr commitB1]) =
     Return (None, positionedAt (historyRepo [commitB2, commitB1]) commitB1
           [\<lparr>Name = ''a.txt'', Addition = 5, Deletion = 0\<rparr>] 0 []) \<and>
   Next (positionedAt (historyRepo [commitB2, commitB1]) commitB1
           [\<lparr>Name = ''a.txt'', Addition = 5, Deletion = 0\<rparr>] 0 []) =
     Return (None, \<lparr>repo = historyRepo [commitB2, commitB1], current = None,
                    stats = [\<lparr>Name = ''a.txt'', Addition = 5, Deletion = 0\<rparr>],
                    statIndex = 0, commitIter = Some []\<rparr>) \<and>
   EOF \<lparr>repo = historyRepo [commitB2, commitB1], current = None,
        stats = [\<lparr>Name = ''a.txt'', Addition = 5, Deletion = 0\<rparr>],
        statIndex = 0, commitIter = Some []\<rparr>"
proof -
  let ?r = "historyRepo [commitB2, commitB1]"
  let ?a = "\<lparr>Name = ''a.txt'', Addition = 3, Deletion = 1\<rparr>"
  let ?b = "\<lparr>Name = ''b.txt'', Addition = 1, Deletion = 0\<rparr>"
  let ?a1 = "\<lparr>Name = ''a.txt'', Addition = 5, Deletion = 0\<rparr>"
  let ?v1 = "positionedAt ?r commitB2 [?a, ?b] 0 [Inr commitB1]"
  let ?v2 = "positionedAt ?r commitB2 [?a] 0 [Inr commitB1]"
  let ?v3 = "positionedAt ?r commitB1 [?a1] 0 []"
  have s1: "Next ?v1 = Return (None, ?v1\<lparr>statIndex := statIndex ?v1 + 1\<rparr>)"
    using Next_steps [of ?v1 commitB2 "[Inr commitB1]"]
    by (simp add: positionedAt_def)
  have s2: "Next ?v2 = Return (None, ?v2\<lparr>statIndex := 0, commitIter := Some [], stats := [?a1],
                                       current := Some commitB1\<rparr>)"
    using Next_steps [of ?v2 commitB2 "[Inr commitB1]"] nextStats_commitB1
    by (simp add: positionedAt_def)
  have s3: "Next ?v3 = Return (None, ?v3\<lparr>statIndex := 0,
                commitIter := Some (snd (CommitIter_Next [])), current := None\<rparr>) \<and>
            EOF (?v3\<lparr>statIndex := 0,
                commitIter := Some (snd (CommitIter_Next [])), current := None\<rparr>)"
    using Next_steps [of ?v3 commitB1 "[]"]
    by (simp add: positionedAt_def CommitIter_Next_def)
  show ?thesis
    using s1 s2 s3 by (simp add: positionedAt_def CommitIter_Next_def)
qed

text \<open>
  C10.  When the statistics that \<open>Next\<close> computes for the walker's next commit are
  empty, \<open>Next\<close> still positions the cursor on that commit: \<open>EOF\<close> is false, and
  \<open>Column\<close> for the columns 1, 2 and 3 indexes the empty list and panics.
\<close>

theorem Next_empty_statistics:
  assumes "\<not> statIndex vc + 1 < length (stats vc)"
    and "commitIter vc = Some (Inr commit # iter')"
    and "nextStats commit = Return (Inr [])"
  shows "\<exists>vc'. Next vc = Return (None, vc') \<and> current vc' = Some commit \<and> \<not> EOF vc' \<and>
           stats vc' = [] \<and> statIndex vc' = 0 \<and>
           Column vc' 1 = Panic IndexOutOfRange \<and>
           Column vc' 2 = Panic IndexOutOfRange \<and>
           Column vc' 3 = Panic IndexOutOfRange"
  using assms
  by (simp add: Next_new_commit EOF_def Column_def)

theorem Next_empty_statistics_witness:
  "\<exists>vc'. Next (positionedAt (historyRepo [commitB4, commitB3, commitB2, commitB1]) commitB4
                 [\<lparr>Name = ''a.txt'', Addition = 1, Deletion = 0\<rparr>] 0
                 [Inr commitB3, Inr commitB2, Inr commitB1]) = Return (None, vc') \<and>
          current vc' = Some commitB3 \<and> \<not> EOF vc' \<and> stats vc' = [] \<and> statIndex vc' = 0 \<and>
          Column vc' 1 = Panic IndexOutOfRange \<and>
          Column vc' 2 = Panic IndexOutOfRange \<and>
          Column vc' 3 = Panic IndexOutOfRange"
proof -
  let ?vc = "positionedAt (historyRepo [commitB4, commitB3, commitB2, commitB1]) commitB4
               [\<lparr>Name = ''a.txt'', Addition = 1, Deletion = 0\<rparr>] 0
               [Inr commitB3, Inr commitB2, Inr commitB1]"
  have last_file: "\<not> statIndex ?vc + 1 < length (stats ?vc)"
    by (simp add: positionedAt_def)
  have walker: "commitIter ?vc = Some (Inr commitB3 # [Inr commitB2, Inr commitB1])"
    by (simp add: positionedAt_def)
  show ?thesis
    using Next_empty_statistics [OF last_file walker nextStats_commitB3] .
qed

subsection \<open>A repository with no commits\<close>

lemma driven_on_unborn:
  assumes "Head r = Inl ErrReferenceNotFound" and "driven r vc"
  shows "vc = newCursor r"
  using assms(2)
proof (induction rule: driven.induct)
  case opened
  show ?case by simp
next
  case (filtered vc e vc')
  then show ?case using assms(1) by (simp add: Filter_def newCursor_def)
next
  case (advanced vc e vc')
  then show ?case by (simp add: Next_def newCursor_def)
qed

text \<open>
  C3.  When \<open>Head()\<close> finds no reference (a repository with no commits), \<open>Filter\<close> on
  any cursor of that repository returns no error and leaves the cursor as it is, \<open>EOF\<close>
  is true at once, and a scan, whatever columns it reads, ends with no row and no error.
\<close>

theorem Filter_no_commits:
  assumes "Head r = Inl ErrReferenceNotFound" and "driven r vc"
  shows "Filter vc = (None, vc) \<and> EOF (snd (Filter vc)) \<and> scan cols vc = ([], Done)"
proof -
  have vc: "vc = newCursor r"
    using assms by (rule driven_on_unborn)
  have f: "Filter vc = (None, vc)"
    using assms(1) by (simp add: Filter_def vc newCursor_def)
  have e: "EOF vc"
    by (simp add: EOF_def vc newCursor_def)
  show ?thesis
    using f e by (simp add: scan_def scanWith_def scanLoop_EOF)
qed

theorem Filter_no_commits_witness:
  "Filter (newCursor unbornRepo) = (None, newCursor unbornRepo) \<and>
   EOF (snd (Filter (newCursor unbornRepo))) \<and>
   scan [0, 1, 2, 3] (newCursor unbornRepo) = ([], Done)"
proof -
  have h: "Head unbornRepo = Inl ErrReferenceNotFound"
    by (simp add: unbornRepo_def)
  show ?thesis
    using Filter_no_commits [OF h driven.opened] .
qed

subsection \<open>Create, Connect and BestIndex\<close>

text \<open>
  C6.  When the path argument \<open>args[3]\<close> is a text \<open>path\<close> between two quote
  characters \<open>a\<close> and \<open>b\<close>, and the engine accepts the schema, \<open>Create\<close> returns a table
  whose \<open>repoPath\<close> is \<open>path\<close>: one character is taken off each end and nothing more
  (quote characters inside \<open>path\<close> stay).  \<open>Open\<close> on that table opens the repository
  at \<open>path\<close>.  When the engine rejects the schema, \<open>Create\<close> returns its error and no
  table.
\<close>

theorem Create_strips_one_layer:
  assumes "3 < length args" and "args ! 3 = a # path @ [b]"
  shows "(DeclareVTab c (schemaText q (args ! 0)) = None \<longrightarrow>
            Create q c args = Return (Inr \<lparr>repoPath = path, tableRepo = None\<rparr>) \<and>
            Open plainOpen \<lparr>repoPath = path, tableRepo = None\<rparr> =
              (case plainOpen path of
                 Inl err \<Rightarrow> Inl err
               | Inr r \<Rightarrow> Inr (\<lparr>repoPath = path, tableRepo = Some r\<rparr>, newCursor r))) \<and>
         (\<forall>err. DeclareVTab c (schemaText q (args ! 0)) = Some err \<longrightarrow>
            Create q c args = Return (Inl err))"
  using assms by (auto simp: Create_def Open_def split: sum.splits)

theorem Create_strips_one_layer_witness:
  "Create quotePlain accepting
     [''git_stats'', ''main'', ''stats'', [CHR 0x22] @ ''/tmp/repo'' @ [CHR 0x22]] =
   Return (Inr \<lparr>repoPath = ''/tmp/repo'', tableRepo = (None :: Repository option)\<rparr>)"
proof -
  let ?args = "[''git_stats'', ''main'', ''stats'', [CHR 0x22] @ ''/tmp/repo'' @ [CHR 0x22]]"
  have len: "3 < length ?args"
    by simp
  have wrapped: "?args ! 3 = CHR 0x22 # ''/tmp/repo'' @ [CHR 0x22]"
    by simp
  have accepted: "DeclareVTab accepting (schemaText quotePlain (?args ! 0)) = None"
    by (simp add: accepting_def)
  from Create_strips_one_layer [OF len wrapped, of accepting quotePlain] accepted
  show ?thesis
    by blast
qed

text \<open>
  C7.  For every list of constraints and every list of orderings, \<open>BestIndex\<close> returns
  no error and a plan with one \<open>Used\<close> flag for each constraint, none of them true.
\<close>

theorem BestIndex_uses_nothing:
  "\<exists>r. BestIndex cst ob = Inr r \<and> length (Used r) = length cst \<and> True \<notin> set (Used r)"
  by (simp add: BestIndex_def)

text \<open>
  C8.  For every connection and every argument list, \<open>Connect\<close> returns what \<open>Create\<close>
  returns: the same declaration is made, the same table or the same error is returned,
  and it panics on the same arguments.
\<close>

theorem Connect_is_Create:
  "Connect q c args = Create q c args"
  by (simp add: Connect_def)

text \<open>
  C9, as stated: every argument list with fewer than 4 elements, or with a path argument
  shorter than 2, makes \<open>Create\<close> fail out of range rather than return an error.  It
  does not hold: with three arguments and an engine that rejects the schema, \<open>Create\<close>
  returns the engine's error, before it looks at \<open>args[3]\<close>.
\<close>

theorem Create_rejected_short_args:
  "length [''git_stats'', ''main'', ''stats''] < 4 \<and>
   (Create quotePlain rejecting [''git_stats'', ''main'', ''stats'']
      :: (error + Repository gitStatsTable) result) =
     Return (Inl (OtherError ''vtable constructor failed''))"
  by (simp add: Create_def rejecting_def)

text \<open>
  C9, amended.  \<open>Create\<close> (and \<open>Connect\<close>, which returns what \<open>Create\<close> returns)
  panics exactly when the argument list is empty, or the engine accepts the schema and
  the list has fewer than 4 elements or its path argument is shorter than 2.  On a
  non-empty list, when the engine rejects the schema, \<open>Create\<close> returns that error.
\<close>

theorem Create_panics_iff:
  "((\<exists>p. (Create q c args :: (error + 'r gitStatsTable) result) = Panic p) \<longleftrightarrow>
      (length args = 0 \<or>
       (DeclareVTab c (schemaText q (args ! 0)) = None \<and>
        (length args < 4 \<or> length (args ! 3) < 2)))) \<and>
   (\<forall>err. 0 < length args \<and> DeclareVTab c (schemaText q (args ! 0)) = Some err \<longrightarrow>
      (Create q c args :: (error + 'r gitStatsTable) result) = Return (Inl err)) \<and>
   (Connect q c args :: (error + 'r gitStatsTable) result) = Create q c args"
  by (auto simp: Create_def Connect_def split: option.splits)

theorem Create_panics_iff_witness:
  "(\<exists>p. (Create quotePlain accepting [''git_stats'', ''main'', ''stats'']
            :: (error + Repository gitStatsTable) result) = Panic p) \<and>
   (\<exists>p. (Create quotePlain accepting [''git_stats'', ''main'', ''stats'', ''x'']
            :: (error + Repository gitStatsTable) result) = Panic p) \<and>
   (Create quotePlain rejecting [''git_stats'']
      :: (error + Repository gitStatsTable) result) =
     Return (Inl (OtherError ''vtable constructor failed''))"
proof -
  have three: "DeclareVTab accepting
        (schemaText quotePlain ([''git_stats'', ''main'', ''stats''] ! 0)) = None \<and>
      length [''git_stats'', ''main'', ''stats''] < 4"
    by (simp add: accepting_def)
  have short: "DeclareVTab accepting
        (schemaText quotePlain ([''git_stats'', ''main'', ''stats'', ''x''] ! 0)) = None \<and>
      length ([''git_stats'', ''main'', ''stats'', ''x''] ! 3) < 2"
    by (simp add: accepting_def)
  have rejected: "0 < length [''git_stats''] \<and>
      DeclareVTab rejecting (schemaText quotePlain ([''git_stats''] ! 0)) =
        Some (OtherError ''vtable constructor failed'')"
    by (simp add: rejecting_def)
  from Create_panics_iff [of quotePlain accepting "[''git_stats'', ''main'', ''stats'']"] three
  have p1: "\<exists>p. (Create quotePlain accepting [''git_stats'', ''main'', ''stats'']
            :: (error + Repository gitStatsTable) result) = Panic p"
    by blast
  from Create_panics_iff [of quotePlain accepting "[''git_stats'', ''main'', ''stats'', ''x'']"]
    short
  have p2: "\<exists>p. (Create quotePlain accepting [''git_stats'', ''main'', ''stats'', ''x'']
            :: (error + Repository gitStatsTable) result) = Panic p"
    by blast
  from Create_panics_iff [of quotePlain rejecting "[''git_stats'']"] rejected
  have p3: "(Create quotePlain rejecting [''git_stats'']
      :: (error + Repository gitStatsTable) result) =
     Return (Inl (OtherError ''vtable constructor failed''))"
    by blast
  show ?thesis
    using p1 p2 p3 by blast
qed

subsection \<open>Calling Filter again\<close>

lemma driven_repo: "driven r vc \<Longrightarrow> repo vc = r"
  by (induction rule: driven.induct)
     (auto simp: newCursor_def Filter_def Next_def
        split: sum.splits prod.splits if_splits option.splits result.splits)

lemma Filter_from_repo:
  assumes "repo vc = r" and "Head r \<noteq> Inl ErrReferenceNotFound"
  shows "fst (Filter vc) = fst (Filter (newCursor r)) \<and>
         (fst (Filter vc) = None \<longrightarrow> snd (Filter vc) = snd (Filter (newCursor r)))"
  using assms
  by (cases vc) (auto simp: Filter_def newCursor_def split: sum.splits prod.splits)

text \<open>
  C5.  On every cursor the table can hold (so also one on which \<open>Filter\<close> and \<open>Next\<close>
  have been called any number of times), \<open>Filter\<close> returns the error it returns on a
  fresh cursor of the same repository; when it returns none, it leaves the cursor in the
  very state it leaves a fresh cursor in (the earlier walker, commit, statistics and file
  index are overwritten); and the scan that follows yields the same rows and ends the
  same way as the scan of a fresh cursor.
\<close>

theorem Filter_again:
  assumes "driven r vc"
  shows "fst (Filter vc) = fst (Filter (newCursor r)) \<and>
         (fst (Filter vc) = None \<longrightarrow> snd (Filter vc) = snd (Filter (newCursor r))) \<and>
         scanWith rd vc = scanWith rd (newCursor r)"
proof (cases "Head r = Inl ErrReferenceNotFound")
  case True
  then have "vc = newCursor r"
    using assms by (rule driven_on_unborn)
  then show ?thesis by simp
next
  case False
  have same: "fst (Filter vc) = fst (Filter (newCursor r)) \<and>
         (fst (Filter vc) = None \<longrightarrow> snd (Filter vc) = snd (Filter (newCursor r)))"
    using driven_repo [OF assms] False by (rule Filter_from_repo)
  obtain e vc1 where f1: "Filter vc = (e, vc1)"
    by (cases "Filter vc")
  obtain e' vc2 where f2: "Filter (newCursor r) = (e', vc2)"
    by (cases "Filter (newCursor r)")
  from same f1 f2 have "e = e'" and "e = None \<longrightarrow> vc1 = vc2"
    by simp_all
  then have "scanWith rd vc = scanWith rd (newCursor r)"
    by (auto simp: scanWith_def f1 f2 split: option.splits)
  with same show ?thesis by simp
qed

text \<open>Scenario B, step by step.\<close>

lemma Log_scenario_B:
  "Log (historyRepo [commitB2, commitB1]) \<lparr>From = ''b2'', Order = LogOrderCommitterTime\<rparr> =
     Inr [Inr commitB2, Inr commitB1]"
  by (simp add: Log_def CommitObject_def historyRepo_def ctimeAnswers.simps
        commitB2_def commitB1_def)

lemma Filter_scenario_B:
  "Filter (newCursor (historyRepo [commitB2, commitB1])) =
     (None, positionedAt (historyRepo [commitB2, commitB1]) commitB2
        [\<lparr>Name = ''a.txt'', Addition = 3, Deletion = 1\<rparr>] 0 [Inr commitB1])"
proof -
  have "Head (historyRepo [commitB2, commitB1]) = Inr ''b2''"
    by (simp add: historyRepo_def commitB2_def)
  moreover have "Stats commitB2 = Inr [\<lparr>Name = ''a.txt'', Addition = 3, Deletion = 1\<rparr>]"
    by (simp add: Stats_def commitB2_def)
  ultimately show ?thesis
    by (simp add: Filter_def newCursor_def positionedAt_def CommitIter_Next_def Log_scenario_B)
qed

lemma Next_scenario_B:
  "Next (positionedAt (historyRepo [commitB2, commitB1]) commitB2
        [\<lparr>Name = ''a.txt'', Addition = 3, Deletion = 1\<rparr>] 0 [Inr commitB1]) =
   Return (None, positionedAt (historyRepo [commitB2, commitB1]) commitB1
        [\<lparr>Name = ''a.txt'', Addition = 5, Deletion = 0\<rparr>] 0 [])"
  by (simp add: Next_new_commit positionedAt_def nextStats_commitB1)

lemma Next_scenario_B_end:
  "Next (positionedAt (historyRepo [commitB2, commitB1]) commitB1
        [\<lparr>Name = ''a.txt'', Addition = 5, Deletion = 0\<rparr>] 0 []) =
   Return (None, \<lparr>repo = historyRepo [commitB2, commitB1], current = None,
        stats = [\<lparr>Name = ''a.txt'', Addition = 5, Deletion = 0\<rparr>], statIndex = 0,
        commitIter = Some []\<rparr>)"
  by (simp add: Next_walker_exhausted positionedAt_def CommitIter_Next_def)

lemma scan_scenario_B:
  "scan [0, 1, 2, 3] (newCursor (historyRepo [commitB2, commitB1])) =
     ([[Some (ResultText ''b2''), Some (ResultText ''a.txt''), Some (ResultInt 3), Some (ResultInt 1)],
       [Some (ResultText ''b1''), Some (ResultText ''a.txt''), Some (ResultInt 5), Some (ResultInt 0)]],
      Done)"
proof -
  let ?r = "historyRepo [commitB2, commitB1]"
  let ?v2 = "positionedAt ?r commitB2 [\<lparr>Name = ''a.txt'', Addition = 3, Deletion = 1\<rparr>] 0 [Inr commitB1]"
  let ?v1 = "positionedAt ?r commitB1 [\<lparr>Name = ''a.txt'', Addition = 5, Deletion = 0\<rparr>] 0 []"
  let ?v0 = "\<lparr>repo = ?r, current = None,
        stats = [\<lparr>Name = ''a.txt'', Addition = 5, Deletion = 0\<rparr>], statIndex = 0,
        commitIter = Some []\<rparr>"
  let ?rd = "\<lambda>vc. readColumns vc [0, 1, 2, 3]"
  have e0: "scanLoop ?rd ?v0 = ([], Done)"
    by (simp add: scanLoop_EOF EOF_def)
  have r1: "?rd ?v1 = Return [Some (ResultText ''b1''), Some (ResultText ''a.txt''),
      Some (ResultInt 5), Some (ResultInt 0)]"
    by (simp add: Column_def positionedAt_def commitB1_def)
  have r2: "?rd ?v2 = Return [Some (ResultText ''b2''), Some (ResultText ''a.txt''),
      Some (ResultInt 3), Some (ResultInt 1)]"
    by (simp add: Column_def positionedAt_def commitB2_def)
  have n1: "\<not> EOF ?v1" and n2: "\<not> EOF ?v2"
    by (simp_all add: EOF_def positionedAt_def)
  have e1: "scanLoop ?rd ?v1 = ([[Some (ResultText ''b1''), Some (ResultText ''a.txt''),
      Some (ResultInt 5), Some (ResultInt 0)]], Done)"
    by (subst scanLoop.simps) (simp add: n1 r1 Next_scenario_B_end e0 del: readColumns.simps)
  have e2: "scanLoop ?rd ?v2 =
     ([[Some (ResultText ''b2''), Some (ResultText ''a.txt''), Some (ResultInt 3), Some (ResultInt 1)],
       [Some (ResultText ''b1''), Some (ResultText ''a.txt''), Some (ResultInt 5), Some (ResultInt 0)]],
      Done)"
    by (subst scanLoop.simps) (simp add: n2 r2 Next_scenario_B e1 del: readColumns.simps)
  show ?thesis
    by (simp add: scan_def scanWith_def Filter_scenario_B e2 del: readColumns.simps)
qed

theorem Filter_again_witness:
  "scan [0, 1, 2, 3] (positionedAt (historyRepo [commitB2, commitB1]) commitB1
        [\<lparr>Name = ''a.txt'', Addition = 5, Deletion = 0\<rparr>] 0 []) =
     ([[Some (ResultText ''b2''), Some (ResultText ''a.txt''), Some (ResultInt 3), Some (ResultInt 1)],
       [Some (ResultText ''b1''), Some (ResultText ''a.txt''), Some (ResultInt 5), Some (ResultInt 0)]],
      Done)"
proof -
  let ?r = "historyRepo [commitB2, commitB1]"
  have "driven ?r (positionedAt ?r commitB2
          [\<lparr>Name = ''a.txt'', Addition = 3, Deletion = 1\<rparr>] 0 [Inr commitB1])"
    using driven.opened Filter_scenario_B by (rule driven.filtered)
  then have used: "driven ?r (positionedAt ?r commitB1
          [\<lparr>Name = ''a.txt'', Addition = 5, Deletion = 0\<rparr>] 0 [])"
    using Next_scenario_B by (rule driven.advanced)
  show ?thesis
    using Filter_again [OF used, of "\<lambda>vc. readColumns vc [0, 1, 2, 3]"] scan_scenario_B
    by (simp add: scan_def del: readColumns.simps)
qed

subsection \<open>What the walker answers\<close>












subsection \<open>A scan on which nothing fails\<close>











subsection \<open>The commits of a full scan\<close>










subsection \<open>The rows of a root commit\<close>

lemma fileRow_Cons: "fileRow files s \<Longrightarrow> fileRow (y # files) s"
  unfolding fileRow_def by auto

lemma fileRow_here:
  "Lines x = Inr lines \<Longrightarrow>
   fileRow (Inr x # files) \<lparr>Name = FName x, Addition = int (length lines), Deletion = 0\<rparr>"
  unfolding fileRow_def by auto

text \<open>What \<open>Stats()\<close> and the loop of \<open>Next\<close> add for the files of a root commit
  are rows of these files.\<close>

lemma emptyTreeStats_rows:
  assumes "emptyTreeStats files acc = Inr st"
  shows "\<exists>new. st = acc @ new \<and> (\<forall>s\<in>set new. fileRow files s)"
  using assms
proof (induction files acc rule: emptyTreeStats.induct)
  case (1 stat)
  then show ?case by simp
next
  case (2 err files stat)
  then show ?case by (simp split: if_splits)
next
  case (3 x files stat)
  show ?case
  proof (cases "Lines x")
    case (Inl err)
    then show ?thesis using "3.prems" by simp
  next
    case (Inr lines)
    show ?thesis
    proof (cases "Binary x \<or> lines = []")
      case True
      with "3.prems" Inr have "emptyTreeStats files stat = Inr st"
        by simp
      from "3.IH"(1) [OF Inr True this] obtain new where
        "st = stat @ new" "\<forall>s\<in>set new. fileRow files s"
        by blast
      then show ?thesis
        using fileRow_Cons by blast
    next
      case False
      let ?s = "\<lparr>Name = FName x, Addition = int (length lines), Deletion = 0\<rparr>"
      from "3.prems" Inr False have "emptyTreeStats files (stat @ [?s]) = Inr st"
        by simp
      from "3.IH"(2) [OF Inr False this] obtain new where
        new: "st = (stat @ [?s]) @ new" "\<forall>s\<in>set new. fileRow files s"
        by blast
      have "st = stat @ (?s # new)"
        using new(1) by simp
      moreover have "\<forall>s\<in>set (?s # new). fileRow (Inr x # files) s"
        using new(2) fileRow_Cons fileRow_here [OF Inr] by simp
      ultimately show ?thesis by blast
    qed
  qed
qed

lemma filesLoop_rows:
  assumes "filesLoop files acc = Return (Inr st)"
  shows "\<exists>new. st = acc @ new \<and> (\<forall>s\<in>set new. fileRow files s)"
  using assms
proof (induction files acc rule: filesLoop.induct)
  case (1 stat)
  then show ?case by simp
next
  case (2 err files stat)
  then show ?case by (simp split: if_splits)
next
  case (3 x files stat)
  show ?case
  proof (cases "Lines x")
    case (Inl err)
    then show ?thesis using "3.prems" by simp
  next
    case (Inr lines)
    let ?s = "\<lparr>Name = FName x, Addition = int (length lines), Deletion = 0\<rparr>"
    from "3.prems" Inr have "filesLoop files (stat @ [?s]) = Return (Inr st)"
      by simp
    from "3.IH" [OF Inr this] obtain new where
      new: "st = (stat @ [?s]) @ new" "\<forall>s\<in>set new. fileRow files s"
      by blast
    have "st = stat @ (?s # new)"
      using new(1) by simp
    moreover have "\<forall>s\<in>set (?s # new). fileRow (Inr x # files) s"
      using new(2) fileRow_Cons fileRow_here [OF Inr] by simp
    ultimately show ?thesis by blast
  qed
qed

lemma Stats_root_rows:
  assumes "NumParents c = 0" and "Stats c = Inr st"
  shows "rootRows c st"
proof -
  from assms obtain files where files: "Files c = Inr files"
    and st: "emptyTreeStats files [] = Inr st"
    by (auto simp: Stats_def NumParents_def split: sum.splits)
  from emptyTreeStats_rows [OF st] files show ?thesis
    unfolding rootRows_def by auto
qed

lemma nextStats_root_rows:
  assumes "NumParents c = 0" and "nextStats c = Return (Inr st)"
  shows "rootRows c st"
proof -
  from assms obtain files where files: "Files c = Inr files"
    and st: "filesLoop files [] = Return (Inr st)"
    by (auto simp: nextStats_def split: sum.splits)
  from filesLoop_rows [OF st] files show ?thesis
    unfolding rootRows_def by auto
qed

text \<open>\<open>Filter\<close> and \<open>Next\<close> either leave the commit and the statistics of the
  cursor as they are, or store a commit together with its statistics.\<close>

lemma Filter_current:
  assumes "Filter vc = (e, vc')" and "current vc' = Some c"
  shows "(current vc = Some c \<and> stats vc' = stats vc) \<or> Stats c = Inr (stats vc')"
proof (cases "Head (repo vc)")
  case (Inl err)
  then show ?thesis using assms by (auto simp: Filter_def split: if_splits)
next
  case head: (Inr headHash)
  show ?thesis
  proof (cases "Log (repo vc) \<lparr>From = headHash, Order = LogOrderCommitterTime\<rparr>")
    case (Inl err)
    then show ?thesis using assms head by (auto simp: Filter_def)
  next
    case log: (Inr iter)
    obtain a iter' where nx: "CommitIter_Next iter = (a, iter')"
      by (cases "CommitIter_Next iter")
    show ?thesis
    proof (cases a)
      case (Inl err)
      then show ?thesis using assms head log nx by (auto simp: Filter_def)
    next
      case commit: (Inr commit)
      show ?thesis
      proof (cases "Stats commit")
        case (Inl err)
        then show ?thesis using assms head log nx commit by (auto simp: Filter_def)
      next
        case (Inr st)
        then show ?thesis using assms head log nx commit by (auto simp: Filter_def)
      qed
    qed
  qed
qed

lemma Next_current:
  assumes "Next vc = Return (e, vc')" and "current vc' = Some c"
  shows "(current vc = Some c \<and> stats vc' = stats vc) \<or> nextStats c = Return (Inr (stats vc'))"
proof (cases "statIndex vc + 1 < length (stats vc)")
  case True
  then show ?thesis using assms by (auto simp: Next_same_commit)
next
  case False
  show ?thesis
  proof (cases "commitIter vc")
    case None
    then show ?thesis using assms False by (simp add: Next_def)
  next
    case (Some iter)
    show ?thesis
    proof (cases iter)
      case Nil
      then show ?thesis
        using assms False Some by (auto simp: Next_def CommitIter_Next_def)
    next
      case (Cons a iter')
      show ?thesis
      proof (cases a)
        case (Inl err)
        then show ?thesis
          using assms False Some Cons
          by (auto simp: Next_def CommitIter_Next_def split: if_splits)
      next
        case (Inr commit)
        then have "commitIter vc = Some (Inr commit # iter')"
          using Some Cons by simp
        from Next_new_commit [OF False this] assms show ?thesis
          by (auto split: result.splits sum.splits)
      qed
    qed
  qed
qed

lemma driven_root_rows:
  assumes "driven r vc"
  shows "\<forall>c. current vc = Some c \<longrightarrow> NumParents c = 0 \<longrightarrow> rootRows c (stats vc)"
  using assms
proof (induction rule: driven.induct)
  case opened
  show ?case by (simp add: newCursor_def)
next
  case (filtered vc e vc')
  show ?case
  proof (intro allI impI)
    fix c assume c: "current vc' = Some c" "NumParents c = 0"
    from Filter_current [OF filtered(2) c(1)] show "rootRows c (stats vc')"
    proof
      assume "current vc = Some c \<and> stats vc' = stats vc"
      then show ?thesis using filtered(3) c(2) by simp
    next
      assume "Stats c = Inr (stats vc')"
      with c(2) show ?thesis by (rule Stats_root_rows)
    qed
  qed
next
  case (advanced vc e vc')
  show ?case
  proof (intro allI impI)
    fix c assume c: "current vc' = Some c" "NumParents c = 0"
    from Next_current [OF advanced(2) c(1)] show "rootRows c (stats vc')"
    proof
      assume "current vc = Some c \<and> stats vc' = stats vc"
      then show ?thesis using advanced(3) c(2) by simp
    next
      assume "nextStats c = Return (Inr (stats vc'))"
      with c(2) show ?thesis by (rule nextStats_root_rows)
    qed
  qed
qed

text \<open>
  C1.  On every cursor a scan can hold that is positioned on a root commit (a commit
  with no parents), whether \<open>Filter\<close> established the commit or \<open>Next\<close> reached it,
  the row at the position has 0 in the column deletions, and in the columns file and
  additions the name of a file of that commit and the number of lines of that file.
\<close>

theorem root_commit_rows:
  assumes "driven r vc" and "current vc = Some c" and "NumParents c = 0"
    and "statIndex vc < length (stats vc)"
  shows "Column vc 3 = Return (Some (ResultInt 0)) \<and>
         (\<exists>files x lines. Files c = Inr files \<and> Inr x \<in> set files \<and> Lines x = Inr lines \<and>
            Column vc 1 = Return (Some (ResultText (FName x))) \<and>
            Column vc 2 = Return (Some (ResultInt (int (length lines)))))"
proof -
  have "rootRows c (stats vc)"
    using driven_root_rows [OF assms(1)] assms(2,3) by blast
  then obtain files where files: "Files c = Inr files"
    and rows: "\<forall>s\<in>set (stats vc). fileRow files s"
    unfolding rootRows_def by blast
  have "stats vc ! statIndex vc \<in> set (stats vc)"
    using assms(4) by simp
  with rows have "fileRow files (stats vc ! statIndex vc)"
    by blast
  then obtain x lines where
    "Deletion (stats vc ! statIndex vc) = 0" "Inr x \<in> set files"
    "FName x = Name (stats vc ! statIndex vc)" "Lines x = Inr lines"
    "Addition (stats vc ! statIndex vc) = int (length lines)"
    unfolding fileRow_def by blast
  then show ?thesis
    using assms(4) files by (auto simp: Column_def)
qed

text \<open>Scenario A: the commit that \<open>Filter\<close> establishes is the root commit.\<close>

lemma Stats_commitA:
  "Stats commitA = Inr [\<lparr>Name = ''a.txt'', Addition = 3, Deletion = 0\<rparr>,
                        \<lparr>Name = ''b.txt'', Addition = 2, Deletion = 0\<rparr>]"
  by (simp add: Stats_def commitA_def)

lemma Log_scenario_A:
  "Log (historyRepo [commitA]) \<lparr>From = ''a1'', Order = LogOrderCommitterTime\<rparr> = Inr [Inr commitA]"
  by (simp add: Log_def CommitObject_def historyRepo_def ctimeAnswers.simps commitA_def)

lemma Filter_scenario_A:
  "Filter (newCursor (historyRepo [commitA])) =
     (None, positionedAt (historyRepo [commitA]) commitA
        [\<lparr>Name = ''a.txt'', Addition = 3, Deletion = 0\<rparr>,
         \<lparr>Name = ''b.txt'', Addition = 2, Deletion = 0\<rparr>] 0 [])"
proof -
  have "Head (historyRepo [commitA]) = Inr ''a1''"
    by (simp add: historyRepo_def commitA_def)
  then show ?thesis
    using Log_scenario_A Stats_commitA
    by (simp add: Filter_def newCursor_def positionedAt_def CommitIter_Next_def)
qed

lemma Next_scenario_A:
  "Next (positionedAt (historyRepo [commitA]) commitA
        [\<lparr>Name = ''a.txt'', Addition = 3, Deletion = 0\<rparr>,
         \<lparr>Name = ''b.txt'', Addition = 2, Deletion = 0\<rparr>] 0 []) =
   Return (None, positionedAt (historyRepo [commitA]) commitA
        [\<lparr>Name = ''a.txt'', Addition = 3, Deletion = 0\<rparr>,
         \<lparr>Name = ''b.txt'', Addition = 2, Deletion = 0\<rparr>] 1 [])"
  by (simp add: Next_same_commit positionedAt_def)

theorem root_commit_rows_witness:
  "Column (positionedAt (historyRepo [commitA]) commitA
        [\<lparr>Name = ''a.txt'', Addition = 3, Deletion = 0\<rparr>,
         \<lparr>Name = ''b.txt'', Addition = 2, Deletion = 0\<rparr>] 1 []) 3 = Return (Some (ResultInt 0)) \<and>
   (\<exists>files x lines. Files commitA = Inr files \<and> Inr x \<in> set files \<and> Lines x = Inr lines \<and>
      Column (positionedAt (historyRepo [commitA]) commitA
        [\<lparr>Name = ''a.txt'', Addition = 3, Deletion = 0\<rparr>,
         \<lparr>Name = ''b.txt'', Addition = 2, Deletion = 0\<rparr>] 1 []) 1 =
        Return (Some (ResultText (FName x))) \<and>
      Column (positionedAt (historyRepo [commitA]) commitA
        [\<lparr>Name = ''a.txt'', Addition = 3, Deletion = 0\<rparr>,
         \<lparr>Name = ''b.txt'', Addition = 2, Deletion = 0\<rparr>] 1 []) 2 =
        Return (Some (ResultInt (int (length lines))))) \<and>
   Column (positionedAt (historyRepo [commitA]) commitA
        [\<lparr>Name = ''a.txt'', Addition = 3, Deletion = 0\<rparr>,
         \<lparr>Name = ''b.txt'', Addition = 2, Deletion = 0\<rparr>] 1 []) 1 =
     Return (Some (ResultText ''b.txt'')) \<and>
   Column (positionedAt (historyRepo [commitA]) commitA
        [\<lparr>Name = ''a.txt'', Addition = 3, Deletion = 0\<rparr>,
         \<lparr>Name = ''b.txt'', Addition = 2, Deletion = 0\<rparr>] 1 []) 2 =
     Return (Some (ResultInt 2))"
proof -
  let ?r = "historyRepo [commitA]"
  let ?st = "[\<lparr>Name = ''a.txt'', Addition = 3, Deletion = 0\<rparr>,
              \<lparr>Name = ''b.txt'', Addition = 2, Deletion = 0\<rparr>]"
  have "driven ?r (positionedAt ?r commitA ?st 0 [])"
    using driven.opened Filter_scenario_A by (rule driven.filtered)
  then have used: "driven ?r (positionedAt ?r commitA ?st 1 [])"
    using Next_scenario_A by (rule driven.advanced)
  have cur: "current (positionedAt ?r commitA ?st 1 []) = Some commitA"
    and row: "statIndex (positionedAt ?r commitA ?st 1 []) < length (stats (positionedAt ?r commitA ?st 1 []))"
    by (simp_all add: positionedAt_def)
  have root: "NumParents commitA = 0"
    by (simp add: NumParents_def commitA_def)
  have shown: "Column (positionedAt ?r commitA ?st 1 []) 1 = Return (Some (ResultText ''b.txt''))"
    "Column (positionedAt ?r commitA ?st 1 []) 2 = Return (Some (ResultInt 2))"
    by (simp_all add: Column_def positionedAt_def)
  show ?thesis
    using root_commit_rows [OF used cur root row] shown by blast
qed

end
